theory Spec2Isabelle
  imports Main "HOL-Library.Sublist"
begin

section \<open>Values and strings\<close>

text \<open>
  The contact function of \<^verbatim>\<open>src/netlify/functions/contact.js\<close> works on JavaScript
  values. A string is a list of code units; the model covers the code units below 256
  (the Latin-1 range), which \<^typ>\<open>char\<close> holds, where \<^verbatim>\<open>trim\<close>, \<^verbatim>\<open>\s\<close> and
  \<^verbatim>\<open>toLowerCase\<close> act code unit by code unit. Numbers are modelled by integers: the
  code only tests their type and compares one of them with 400.
\<close>

datatype jsval =
    JUndefined
  | JNull
  | JBool bool
  | JNum int
  | JStr string
  | JArr "jsval list"
  | JObj "(string \<times> jsval) list"

text \<open>Truthiness, as \<^verbatim>\<open>!value\<close>, \<^verbatim>\<open>||\<close> and \<^verbatim>\<open>filter(Boolean)\<close> read it.\<close>

fun truthy :: "jsval \<Rightarrow> bool" where
  "truthy JUndefined = False"
| "truthy JNull = False"
| "truthy (JBool b) = b"
| "truthy (JNum n) = (n \<noteq> 0)"
| "truthy (JStr s) = (s \<noteq> [])"
| "truthy (JArr xs) = True"
| "truthy (JObj kvs) = True"

text \<open>Optional property access \<^verbatim>\<open>v?.k\<close> on a parsed JSON value or a thrown value.\<close>

fun getProp :: "jsval \<Rightarrow> string \<Rightarrow> jsval" where
  "getProp (JObj kvs) k = (case map_of kvs k of Some v \<Rightarrow> v | None \<Rightarrow> JUndefined)"
| "getProp v k = JUndefined"

text \<open>
  The white space of \<^verbatim>\<open>String.prototype.trim\<close> and of the regular expression class
  \<^verbatim>\<open>\s\<close> below 256: tab, line feed, vertical tab, form feed, carriage return, space and
  the no-break space.
\<close>

definition isWhiteSpace :: "char \<Rightarrow> bool" where
  "isWhiteSpace c = (of_char c \<in> {9, 10, 11, 12, 13, 32, 160 :: nat})"

definition trim :: "string \<Rightarrow> string" where
  "trim s = rev (dropWhile isWhiteSpace (rev (dropWhile isWhiteSpace s)))"

text \<open>
  \<^verbatim>\<open>toLowerCase\<close> on one code unit below 256: the letters A to Z and the Latin-1 capitals
  (0xC0 to 0xDE without the multiplication sign 0xD7) move up by 32.
\<close>

definition lowerChar :: "char \<Rightarrow> char" where
  "lowerChar c =
     (let n = of_char c :: nat
      in if (65 \<le> n \<and> n \<le> 90) \<or> (192 \<le> n \<and> n \<le> 222 \<and> n \<noteq> 215)
         then char_of (n + 32) else c)"

definition toLowerCase :: "string \<Rightarrow> string" where
  "toLowerCase s = map lowerChar s"

section \<open>Input normalizer\<close>

fun normalizeString :: "jsval \<Rightarrow> string" where
  "normalizeString (JStr value) = trim value"
| "normalizeString v = []"

fun normalizeEmail :: "jsval \<Rightarrow> string" where
  "normalizeEmail (JStr value) = toLowerCase (trim value)"
| "normalizeEmail v = []"

section \<open>Recipient deduplication\<close>

text \<open>
  \<^verbatim>\<open>dedupeEmails\<close> runs \<^verbatim>\<open>forEach\<close> over the values with two mutable locals, the set
  \<^verbatim>\<open>seen\<close> and the array \<^verbatim>\<open>result\<close>; the loop passes both along.
\<close>

fun dedupe_loop :: "string set \<Rightarrow> jsval list \<Rightarrow> jsval list \<Rightarrow> jsval list" where
  "dedupe_loop seen result [] = result"
| "dedupe_loop seen result (email # rest) =
     (let normalized = normalizeEmail email
      in if normalized = [] \<or> normalized \<in> seen
         then dedupe_loop seen result rest
         else dedupe_loop (insert normalized seen) (result @ [email]) rest)"

definition dedupeEmails :: "jsval list \<Rightarrow> jsval list" where
  "dedupeEmails values = dedupe_loop {} [] values"

section \<open>Recipient sources\<close>

text \<open>
  \<^verbatim>\<open>String(value).split(/[,;\s]+/)\<close>: every maximal run of separators ends one piece and
  starts the next, so a leading or trailing run leaves an empty piece at that end.
\<close>

definition isSeparator :: "char \<Rightarrow> bool" where
  "isSeparator c = (c = CHR '','' \<or> c = CHR '';'' \<or> isWhiteSpace c)"

function splitSeparators :: "string \<Rightarrow> string list" where
  "splitSeparators [] = [[]]"
| "splitSeparators (c # cs) =
     (if isSeparator c then [] # splitSeparators (dropWhile isSeparator cs)
      else (case splitSeparators cs of
              [] \<Rightarrow> [[c]]
            | piece # pieces \<Rightarrow> (c # piece) # pieces))"
  by pat_completeness auto
termination
  by (relation "measure length") (auto simp: le_imp_less_Suc length_dropWhile_le)

text \<open>
  The values \<^verbatim>\<open>parseRecipientList\<close> is given: a \<^verbatim>\<open>process.env\<close> entry is undefined or
  a string, and the \<^verbatim>\<open>Array.isArray\<close> branch takes an array of any values.
\<close>

datatype recipient_source = Unset | Text string | Items "jsval list"

fun parseRecipientList :: "recipient_source \<Rightarrow> string list" where
  "parseRecipientList Unset = []"
| "parseRecipientList (Text value) =
     (if value = [] then []
      else filter (\<lambda>e. e \<noteq> []) (map (\<lambda>piece. normalizeEmail (JStr piece)) (splitSeparators value)))"
| "parseRecipientList (Items value) = filter (\<lambda>e. e \<noteq> []) (map normalizeEmail value)"

record environment =
  CONTACT_FORM_RECIPIENTS :: "string option"
  CONTACT_RECIPIENTS :: "string option"
  CONTACT_EMAIL :: "string option"
  SUPPORT_EMAIL :: "string option"
  MAIL_FROM :: "string option"
  SMTP_USER :: "string option"

fun envSource :: "string option \<Rightarrow> recipient_source" where
  "envSource None = Unset"
| "envSource (Some s) = Text s"

fun envValue :: "string option \<Rightarrow> jsval" where
  "envValue None = JUndefined"
| "envValue (Some s) = JStr s"

definition jsOr :: "jsval \<Rightarrow> jsval \<Rightarrow> jsval" where
  "jsOr a b = (if truthy a then a else b)"

definition envCandidates :: "environment \<Rightarrow> recipient_source list" where
  "envCandidates e =
     [envSource (CONTACT_FORM_RECIPIENTS e), envSource (CONTACT_RECIPIENTS e),
      envSource (CONTACT_EMAIL e), envSource (SUPPORT_EMAIL e)]"

text \<open>The local \<^verbatim>\<open>recipients\<close> of \<^verbatim>\<open>resolveContactRecipients\<close>.\<close>

definition envRecipients :: "environment \<Rightarrow> jsval list" where
  "envRecipients e = dedupeEmails (map JStr (concat (map parseRecipientList (envCandidates e))))"

section \<open>Rendering\<close>

text \<open>\<^verbatim>\<open>s.replace(/c/g, r)\<close> for a one-character pattern and a replacement without \<^verbatim>\<open>$\<close>.\<close>

definition replaceAll :: "char \<Rightarrow> string \<Rightarrow> string \<Rightarrow> string" where
  "replaceAll c r s = concat (map (\<lambda>x. if x = c then r else [x]) s)"

definition escapeHtml :: "string \<Rightarrow> string" where
  "escapeHtml value =
     replaceAll (CHR 0x27) ''&#39;''
       (replaceAll (CHR 0x22) ''&quot;''
         (replaceAll CHR ''>'' ''&gt;''
           (replaceAll CHR ''<'' ''&lt;''
             (replaceAll CHR ''&'' ''&amp;'' value))))"

text \<open>
  A submission as \<^verbatim>\<open>formatEmailBody\<close> receives it from the handler: four strings, and the
  date, modelled by the label its \<^verbatim>\<open>toISOString\<close> returns.
\<close>

record submission =
  name :: string
  email :: string
  subject :: string
  message :: string
  submittedAt :: string

record rendered =
  body_text :: string
  body_html :: string

text \<open>\<^verbatim>\<open>lines.join(sep)\<close>; null and undefined elements join as the empty string.\<close>

fun joinPiece :: "jsval \<Rightarrow> string" where
  "joinPiece (JStr s) = s"
| "joinPiece v = []"

fun join :: "string \<Rightarrow> jsval list \<Rightarrow> string" where
  "join sep [] = []"
| "join sep [x] = joinPiece x"
| "join sep (x # y # ys) = joinPiece x @ sep @ join sep (y # ys)"

definition textLines :: "submission \<Rightarrow> jsval list" where
  "textLines s =
     filter truthy
       [JStr ''New contact form submission received.'',
        JStr (''Submitted at: '' @ submittedAt s),
        (if name s \<noteq> [] then JStr (''Name: '' @ name s) else JNull),
        (if email s \<noteq> [] then JStr (''Email: '' @ email s) else JNull),
        JStr [],
        JStr (message s)]"

definition formatEmailBody :: "submission \<Rightarrow> rendered" where
  "formatEmailBody s =
     (let submittedLabel = submittedAt s;
          safeMessage = escapeHtml (message s);
          safeName = escapeHtml (name s);
          safeEmail = escapeHtml (email s);
          lines = textLines s
      in \<lparr> body_text = join ''\<newline>'' lines,
           body_html =
             ''\<newline>    <p><strong>New contact form submission received.</strong></p>\<newline>    <ul>\<newline>      <li><strong>Submitted at:</strong> ''
             @ submittedLabel @ ''</li>\<newline>      ''
             @ (if name s \<noteq> [] then ''<li><strong>Name:</strong> '' @ safeName @ ''</li>'' else [])
             @ ''\<newline>      ''
             @ (if email s \<noteq> [] then ''<li><strong>Email:</strong> '' @ safeEmail @ ''</li>'' else [])
             @ ''\<newline>    </ul>\<newline>    <p><strong>Message:</strong></p>\<newline>    <blockquote>''
             @ replaceAll CHR ''\<newline>'' ''<br>'' safeMessage
             @ ''</blockquote>\<newline>  '' \<rparr>)"

section \<open>Plausibility check\<close>

text \<open>
  Regular expressions over character classes, matched by derivatives. The pattern of
  \<^verbatim>\<open>isLikelyEmail\<close> is anchored at both ends and has no flags, so \<^verbatim>\<open>test\<close> holds exactly
  when the whole string matches.
\<close>

datatype rx =
    Never
  | Empty
  | Class "char \<Rightarrow> bool"
  | Alt rx rx
  | Seq rx rx
  | Star rx

definition Plus :: "rx \<Rightarrow> rx" where
  "Plus r = Seq r (Star r)"

fun nullable :: "rx \<Rightarrow> bool" where
  "nullable Never = False"
| "nullable Empty = True"
| "nullable (Class p) = False"
| "nullable (Alt r s) = (nullable r \<or> nullable s)"
| "nullable (Seq r s) = (nullable r \<and> nullable s)"
| "nullable (Star r) = True"

fun deriv :: "char \<Rightarrow> rx \<Rightarrow> rx" where
  "deriv c Never = Never"
| "deriv c Empty = Never"
| "deriv c (Class p) = (if p c then Empty else Never)"
| "deriv c (Alt r s) = Alt (deriv c r) (deriv c s)"
| "deriv c (Seq r s) =
     (if nullable r then Alt (Seq (deriv c r) s) (deriv c s) else Seq (deriv c r) s)"
| "deriv c (Star r) = Seq (deriv c r) (Star r)"

fun regexTest :: "rx \<Rightarrow> string \<Rightarrow> bool" where
  "regexTest r [] = nullable r"
| "regexTest r (c # cs) = regexTest (deriv c r) cs"

text \<open>The class \<^verbatim>\<open>[^\s@]\<close> and the pattern \<^verbatim>\<open>/^[^\s@]+@[^\s@]+\.[^\s@]+$/\<close>.\<close>

definition notSpaceAt :: "char \<Rightarrow> bool" where
  "notSpaceAt c = (\<not> isWhiteSpace c \<and> c \<noteq> CHR ''@'')"

definition emailPattern :: rx where
  "emailPattern =
     Seq (Plus (Class notSpaceAt))
       (Seq (Class (\<lambda>c. c = CHR ''@''))
         (Seq (Plus (Class notSpaceAt))
           (Seq (Class (\<lambda>c. c = CHR ''.''))
             (Plus (Class notSpaceAt)))))"

fun isLikelyEmail :: "jsval \<Rightarrow> bool" where
  "isLikelyEmail (JStr value) =
     (let normalized = trim value
      in if normalized = [] then False else regexTest emailPattern normalized)"
| "isLikelyEmail v = False"

section \<open>Collaborators\<close>

text \<open>
  What the handler hands to \<^verbatim>\<open>sendMail\<close>, and what a resolved \<^verbatim>\<open>sendMail\<close> gives back:
  an object with the accepted addresses \<^verbatim>\<open>to\<close> and a \<^verbatim>\<open>messageId\<close>.
\<close>

record mail =
  mail_to :: "jsval list"
  mail_subject :: string
  mail_text :: string
  mail_html :: string
  mail_replyTo :: string
  mail_headers :: "(string \<times> string) list"

record mail_result =
  result_to :: jsval
  result_messageId :: jsval

text \<open>
  The surroundings of one invocation: the environment variables, the answer of
  \<^verbatim>\<open>isMailConfigured()\<close>, what \<^verbatim>\<open>listTeamMemberEmails()\<close> does (it throws a value or
  returns a list), the label of \<^verbatim>\<open>new Date()\<close>, what \<^verbatim>\<open>JSON.parse\<close> makes of the request
  body (\<open>None\<close> when it throws), and what the awaited \<^verbatim>\<open>sendMail\<close> does with a mail (it
  rejects with a value or resolves). Calls to collaborators are recorded in order.
\<close>

record world =
  env :: environment
  isMailConfigured :: bool
  listTeamMemberEmails :: "jsval + jsval list"
  now :: string
  JSON_parse :: "jsval \<Rightarrow> jsval option"
  sendMail :: "mail \<Rightarrow> jsval + mail_result"

datatype call = ListTeamMemberEmails | SendMail mail | ConsoleError jsval

section \<open>Recipient resolver\<close>

definition resolveContactRecipients :: "world \<Rightarrow> (jsval + jsval list) \<times> call list" where
  "resolveContactRecipients w =
     (let recipients = envRecipients (env w)
      in if recipients \<noteq> [] then (Inr recipients, [])
         else (case listTeamMemberEmails w of
                 Inl thrown \<Rightarrow> (Inl thrown, [ListTeamMemberEmails])
               | Inr members \<Rightarrow>
                   (let fallback = dedupeEmails members
                    in if fallback \<noteq> [] then (Inr fallback, [ListTeamMemberEmails])
                       else (let smtpUser =
                                   normalizeEmail (jsOr (envValue (MAIL_FROM (env w)))
                                                        (envValue (SMTP_USER (env w))))
                             in (Inr (if smtpUser \<noteq> [] then [JStr smtpUser] else []),
                                 [ListTeamMemberEmails])))))"

section \<open>Handler\<close>

datatype event = Event (event_body: jsval)

record response =
  statusCode :: int
  body :: jsval

definition startsWith :: "string \<Rightarrow> string \<Rightarrow> bool" where
  "startsWith s p = (take (length p) s = p)"

text \<open>The local \<^verbatim>\<open>safeSubject\<close> of the handler.\<close>

definition safeSubject :: "string \<Rightarrow> string" where
  "safeSubject subj =
     (if startsWith subj ''Website contact:'' then subj else ''Website contact: '' @ subj)"

definition errorResponse :: "int \<Rightarrow> string \<Rightarrow> response" where
  "errorResponse code msg = \<lparr> statusCode = code, body = JObj [(''error'', JStr msg)] \<rparr>"

text \<open>The status chosen in the \<^verbatim>\<open>catch\<close> block around \<^verbatim>\<open>sendMail\<close>.\<close>

definition failureStatus :: "jsval \<Rightarrow> int" where
  "failureStatus thrown =
     (case getProp thrown ''statusCode'' of
        JNum n \<Rightarrow> (if n \<ge> 400 then n else 500)
      | _ \<Rightarrow> 500)"

text \<open>
  The handler returns a response (\<open>Inr\<close>) or lets a thrown value escape (\<open>Inl\<close>); the
  body of a response is the value the code gives to \<^verbatim>\<open>JSON.stringify\<close>.
\<close>

definition handler :: "world \<Rightarrow> event \<Rightarrow> (jsval + response) \<times> call list" where
  "handler w ev =
     (if \<not> isMailConfigured w then
        (Inr (errorResponse 503
           ''Email service is not configured. Set SMTP credentials to enable contact form notifications.''), [])
      else (case JSON_parse w (event_body ev) of
        None \<Rightarrow> (Inr (errorResponse 400 ''Invalid JSON''), [])
      | Some parsed \<Rightarrow>
         (let name = normalizeString (getProp parsed ''name'');
              email = normalizeString (getProp parsed ''email'');
              subject = normalizeString (getProp parsed ''subject'');
              message = normalizeString (getProp parsed ''message'')
          in if subject = [] then (Inr (errorResponse 400 ''Subject is required''), [])
             else if message = [] then (Inr (errorResponse 400 ''Message is required''), [])
             else if email = [] \<or> \<not> isLikelyEmail (JStr email) then
               (Inr (errorResponse 400 ''A valid email address is required''), [])
             else (case resolveContactRecipients w of
                (Inl thrown, calls) \<Rightarrow> (Inl thrown, calls)
              | (Inr recipients, calls) \<Rightarrow>
                 if recipients = [] then
                   (Inr (errorResponse 503
                      ''No contact recipients configured. Set CONTACT_FORM_RECIPIENTS or CONTACT_EMAIL in the environment.''),
                    calls)
                 else
                   (let r = formatEmailBody
                              \<lparr> name = name, email = email, subject = subject,
                                message = message, submittedAt = now w \<rparr>;
                        m = \<lparr> mail_to = recipients, mail_subject = safeSubject subject,
                              mail_text = body_text r, mail_html = body_html r,
                              mail_replyTo = email,
                              mail_headers = [(''X-Entity'', ''contact-form-message'')] \<rparr>
                    in (case sendMail w m of
                          Inr mailResult \<Rightarrow>
                            (Inr \<lparr> statusCode = 200,
                                   body = JObj [(''success'', JBool True),
                                                (''sent_to'', result_to mailResult),
                                                (''message_id'', jsOr (result_messageId mailResult) JNull)] \<rparr>,
                             calls @ [SendMail m])
                        | Inl thrown \<Rightarrow>
                            (Inr \<lparr> statusCode = failureStatus thrown,
                                   body = JObj [(''error'', JStr ''Failed to send contact email''),
                                                (''details'', jsOr (getProp thrown ''message'') JNull)] \<rparr>,
                             calls @ [SendMail m, ConsoleError thrown])))))))"

section \<open>Specification functions\<close>

text \<open>Each element once, at the place of its first occurrence.\<close>

fun firstSeen :: "'a list \<Rightarrow> 'a list" where
  "firstSeen [] = []"
| "firstSeen (x # xs) = x # filter (\<lambda>y. y \<noteq> x) (firstSeen xs)"

text \<open>The entity of one character, as the specification lists them.\<close>

definition htmlEntity :: "char \<Rightarrow> string" where
  "htmlEntity c =
     (if c = CHR ''&'' then ''&amp;''
      else if c = CHR ''<'' then ''&lt;''
      else if c = CHR ''>'' then ''&gt;''
      else if c = CHR 0x22 then ''&quot;''
      else if c = CHR 0x27 then ''&#39;''
      else [c])"

text \<open>The language of a regular expression, to state what the matcher decides.\<close>

fun lang :: "rx \<Rightarrow> string set" where
  "lang Never = {}"
| "lang Empty = {[]}"
| "lang (Class p) = {[c] | c. p c}"
| "lang (Alt r s) = lang r \<union> lang s"
| "lang (Seq r s) = {u @ v | u v. u \<in> lang r \<and> v \<in> lang s}"
| "lang (Star r) = {concat ws | ws. set ws \<subseteq> lang r}"

text \<open>
  The minimal shape in the specification's words: exactly one \<^verbatim>\<open>@\<close>, a non-empty local
  part before it, no white space anywhere, and after it a domain with a dot that has
  non-empty text on both of its sides.
\<close>

definition plausibleShape :: "string \<Rightarrow> bool" where
  "plausibleShape t =
     (\<exists>local domain.
        t = local @ ''@'' @ domain
        \<and> CHR ''@'' \<notin> set local \<and> CHR ''@'' \<notin> set domain
        \<and> local \<noteq> [] \<and> (\<forall>c\<in>set t. \<not> isWhiteSpace c)
        \<and> (\<exists>a b. domain = a @ ''.'' @ b \<and> a \<noteq> [] \<and> b \<noteq> []))"

section \<open>Deduplication: first seen, once, idempotent\<close>

lemma dedupe_loop_result: "dedupe_loop seen result xs = result @ dedupe_loop seen [] xs"
proof (induction xs arbitrary: seen result)
  case Nil
  show ?case by simp
next
  case (Cons e rest)
  show ?case
    using Cons.IH [of seen result] Cons.IH [of "insert (normalizeEmail e) seen" "result @ [e]"]
      Cons.IH [of "insert (normalizeEmail e) seen" "[e]"]
    by (simp add: Let_def)
qed

lemma dedupe_loop_Cons:
  "dedupe_loop seen [] (e # rest) =
     (if normalizeEmail e = [] \<or> normalizeEmail e \<in> seen then dedupe_loop seen [] rest
      else e # dedupe_loop (insert (normalizeEmail e) seen) [] rest)"
  using dedupe_loop_result [of "insert (normalizeEmail e) seen" "[e]" rest]
  by (simp add: Let_def)

declare dedupe_loop.simps(2) [simp del]

lemma dedupe_loop_subset: "set (dedupe_loop seen [] xs) \<subseteq> set xs"
  by (induction xs arbitrary: seen) (auto simp: dedupe_loop_Cons)

lemma dedupe_loop_subseq: "subseq (dedupe_loop seen [] xs) xs"
  by (induction xs arbitrary: seen) (auto simp: dedupe_loop_Cons)

lemma dedupe_loop_keys_fresh:
  "x \<in> set (dedupe_loop seen [] xs) \<Longrightarrow> normalizeEmail x \<noteq> [] \<and> normalizeEmail x \<notin> seen"
  by (induction xs arbitrary: seen) (auto simp: dedupe_loop_Cons split: if_splits)

lemma dedupe_loop_keys_distinct: "distinct (map normalizeEmail (dedupe_loop seen [] xs))"
  by (induction xs arbitrary: seen) (auto simp: dedupe_loop_Cons dest: dedupe_loop_keys_fresh)

lemma dedupe_loop_keys_set:
  "normalizeEmail ` set (dedupe_loop seen [] xs) = normalizeEmail ` set xs - insert [] seen"
  by (induction xs arbitrary: seen) (auto simp: dedupe_loop_Cons)

lemma dedupe_loop_first:
  "x \<in> set (dedupe_loop seen [] xs) \<Longrightarrow> find (\<lambda>y. normalizeEmail y = normalizeEmail x) xs = Some x"
proof (induction xs arbitrary: seen)
  case Nil
  then show ?case by simp
next
  case (Cons e rest)
  show ?case
  proof (cases "normalizeEmail e = [] \<or> normalizeEmail e \<in> seen")
    case True
    with Cons.prems have mem: "x \<in> set (dedupe_loop seen [] rest)"
      by (simp add: dedupe_loop_Cons)
    from dedupe_loop_keys_fresh [OF mem] True have "normalizeEmail e \<noteq> normalizeEmail x"
      by auto
    with Cons.IH [OF mem] show ?thesis by simp
  next
    case False
    with Cons.prems have "x = e \<or> x \<in> set (dedupe_loop (insert (normalizeEmail e) seen) [] rest)"
      by (simp add: dedupe_loop_Cons)
    then show ?thesis
    proof
      assume "x = e"
      then show ?thesis by simp
    next
      assume mem: "x \<in> set (dedupe_loop (insert (normalizeEmail e) seen) [] rest)"
      from dedupe_loop_keys_fresh [OF mem] have "normalizeEmail e \<noteq> normalizeEmail x"
        by auto
      with Cons.IH [OF mem] show ?thesis by simp
    qed
  qed
qed

lemma dedupe_loop_fixed:
  "distinct (map normalizeEmail ys) \<Longrightarrow> \<forall>y\<in>set ys. normalizeEmail y \<noteq> [] \<and> normalizeEmail y \<notin> seen
     \<Longrightarrow> dedupe_loop seen [] ys = ys"
proof (induction ys arbitrary: seen)
  case Nil
  show ?case by simp
next
  case (Cons e rest)
  have d: "distinct (map normalizeEmail rest)"
    using Cons.prems(1) by simp
  have f: "\<forall>y\<in>set rest. normalizeEmail y \<noteq> [] \<and> normalizeEmail y \<notin> insert (normalizeEmail e) seen"
  proof
    fix y
    assume y: "y \<in> set rest"
    from Cons.prems(1) have "normalizeEmail e \<notin> normalizeEmail ` set rest"
      by simp
    with y have "normalizeEmail y \<noteq> normalizeEmail e"
      by (metis imageI)
    with Cons.prems(2) y
    show "normalizeEmail y \<noteq> [] \<and> normalizeEmail y \<notin> insert (normalizeEmail e) seen"
      by simp
  qed
  have "dedupe_loop (insert (normalizeEmail e) seen) [] rest = rest"
    using d f by (rule Cons.IH)
  with Cons.prems show ?case by (simp add: dedupe_loop_Cons)
qed

lemma dedupe_loop_idem:
  "dedupe_loop {} [] (dedupe_loop seen [] xs) = dedupe_loop seen [] xs"
  by (rule dedupe_loop_fixed) (auto simp: dedupe_loop_keys_distinct dest: dedupe_loop_keys_fresh)

text \<open>
  C10: for every list of values (strings among them), every element of
  \<^verbatim>\<open>dedupeEmails(xs)\<close> occurs in \<open>xs\<close>; the trimmed, lowercased keys of the output are
  pairwise distinct, none is empty, and they are exactly the non-empty keys of the input;
  the output is a subsequence of the input in which every element is the first input
  element with its key; and deduplicating the output again changes nothing.
\<close>

theorem dedupeEmails_first_seen_idempotent:
  "set (dedupeEmails xs) \<subseteq> set xs
   \<and> distinct (map normalizeEmail (dedupeEmails xs))
   \<and> [] \<notin> normalizeEmail ` set (dedupeEmails xs)
   \<and> normalizeEmail ` set (dedupeEmails xs) = normalizeEmail ` set xs - {[]}
   \<and> subseq (dedupeEmails xs) xs
   \<and> (\<forall>x\<in>set (dedupeEmails xs). find (\<lambda>y. normalizeEmail y = normalizeEmail x) xs = Some x)
   \<and> dedupeEmails (dedupeEmails xs) = dedupeEmails xs"
  unfolding dedupeEmails_def
  using dedupe_loop_subset [of "{}" xs] dedupe_loop_keys_distinct [of "{}" xs]
    dedupe_loop_keys_set [of "{}" xs] dedupe_loop_subseq [of "{}" xs]
    dedupe_loop_idem [of "{}" xs] dedupe_loop_first [of _ "{}" xs]
    dedupe_loop_keys_fresh [of _ "{}" xs]
  by (intro conjI) auto

text \<open>The same at a list with a repeated address in another casing and two values without key.\<close>

theorem dedupeEmails_first_seen_idempotent_witness:
  "dedupeEmails [JStr ''Ann@x.org'', JNull, JStr '' ann@X.org '', JStr ''bob@x.org'', JStr ''  '']
     = [JStr ''Ann@x.org'', JStr ''bob@x.org'']
   \<and> find (\<lambda>y. normalizeEmail y = normalizeEmail (JStr ''Ann@x.org''))
        [JStr ''Ann@x.org'', JNull, JStr '' ann@X.org '', JStr ''bob@x.org'', JStr ''  ''] = Some (JStr ''Ann@x.org'')
   \<and> dedupeEmails (dedupeEmails [JStr ''Ann@x.org'', JNull, JStr '' ann@X.org '', JStr ''bob@x.org'', JStr ''  ''])
     = [JStr ''Ann@x.org'', JStr ''bob@x.org'']"
proof -
  let ?xs = "[JStr ''Ann@x.org'', JNull, JStr '' ann@X.org '', JStr ''bob@x.org'', JStr ''  '']"
  have ev: "dedupeEmails ?xs = [JStr ''Ann@x.org'', JStr ''bob@x.org'']"
    by code_simp
  from dedupeEmails_first_seen_idempotent [of ?xs]
  have "\<forall>x\<in>set (dedupeEmails ?xs). find (\<lambda>y. normalizeEmail y = normalizeEmail x) ?xs = Some x"
    and "dedupeEmails (dedupeEmails ?xs) = dedupeEmails ?xs"
    by blast+
  with ev show ?thesis by simp
qed

lemma set_firstSeen: "set (firstSeen xs) = set xs"
  by (induction xs) auto

lemma distinct_firstSeen: "distinct (firstSeen xs)"
  by (induction xs) (auto simp: set_firstSeen)


section \<open>Normalization is idempotent\<close>

lemma isWhiteSpace_lowerChar: "isWhiteSpace (lowerChar c) = isWhiteSpace c"
  by (auto simp: isWhiteSpace_def lowerChar_def Let_def)

lemma lowerChar_idem: "lowerChar (lowerChar c) = lowerChar c"
  by (auto simp: lowerChar_def Let_def)

lemma toLowerCase_idem: "toLowerCase (toLowerCase s) = toLowerCase s"
  by (simp add: toLowerCase_def lowerChar_idem)

lemma dropWhile_space_lower:
  "dropWhile isWhiteSpace (map lowerChar s) = map lowerChar (dropWhile isWhiteSpace s)"
  by (induction s) (simp_all add: isWhiteSpace_lowerChar)

lemma trim_toLowerCase: "trim (toLowerCase s) = toLowerCase (trim s)"
  by (simp add: trim_def toLowerCase_def dropWhile_space_lower rev_map)

lemma last_dropWhile_keep: "dropWhile P xs \<noteq> [] \<Longrightarrow> last (dropWhile P xs) = last xs"
  by (induction xs) (auto split: if_splits)

lemma trim_idem: "trim (trim s) = trim s"
proof -
  define t where "t = dropWhile isWhiteSpace s"
  define u where "u = dropWhile isWhiteSpace (rev t)"
  have front: "dropWhile isWhiteSpace (rev u) = rev u"
  proof (cases "u = []")
    case True
    then show ?thesis by simp
  next
    case False
    then have "last u = last (rev t)"
      unfolding u_def by (rule last_dropWhile_keep)
    moreover from False have "t \<noteq> []"
      by (auto simp: u_def)
    ultimately have "hd (rev u) = hd t"
      using False by (simp add: hd_rev last_rev)
    moreover from \<open>t \<noteq> []\<close> have "\<not> isWhiteSpace (hd t)"
      unfolding t_def by (rule hd_dropWhile)
    ultimately show ?thesis
      by (simp add: dropWhile_eq_self_iff)
  qed
  have "trim s = rev u"
    by (simp add: trim_def t_def u_def)
  moreover have "trim (rev u) = rev u"
    by (simp add: trim_def front) (simp add: u_def)
  ultimately show ?thesis by simp
qed

lemma normalizeEmail_idem: "normalizeEmail (JStr (normalizeEmail v)) = normalizeEmail v"
proof (cases v)
  case (JStr s)
  then show ?thesis
    by (simp add: trim_toLowerCase trim_idem toLowerCase_idem)
qed (simp_all add: trim_def toLowerCase_def)

lemma parseRecipientList_normalized:
  "t \<in> set (parseRecipientList v) \<Longrightarrow> t \<noteq> [] \<and> normalizeEmail (JStr t) = t"
  by (cases v) (auto simp: normalizeEmail_idem simp del: normalizeEmail.simps split: if_splits)

section \<open>Environment recipients\<close>

text \<open>On values that are their own keys the loop keeps the first occurrence of each.\<close>

lemma dedupe_loop_own_keys:
  "\<forall>t\<in>set ts. t \<noteq> [] \<and> normalizeEmail (JStr t) = t \<Longrightarrow>
   dedupe_loop seen [] (map JStr ts) = map JStr (filter (\<lambda>t. t \<notin> seen) (firstSeen ts))"
proof (induction ts arbitrary: seen)
  case Nil
  show ?case by simp
next
  case (Cons t ts)
  have own: "t \<noteq> []" "normalizeEmail (JStr t) = t"
    using Cons.prems by simp_all
  have rest: "\<forall>t\<in>set ts. t \<noteq> [] \<and> normalizeEmail (JStr t) = t"
    using Cons.prems by simp
  show ?case
  proof (cases "t \<in> seen")
    case True
    then have "filter (\<lambda>x. x \<notin> seen) (filter (\<lambda>x. x \<noteq> t) (firstSeen ts))
      = filter (\<lambda>x. x \<notin> seen) (firstSeen ts)"
      by (auto intro: filter_cong)
    with True own Cons.IH [OF rest, of seen] show ?thesis
      by (simp add: dedupe_loop_Cons)
  next
    case False
    have "filter (\<lambda>x. x \<notin> seen) (filter (\<lambda>x. x \<noteq> t) (firstSeen ts))
      = filter (\<lambda>x. x \<notin> insert t seen) (firstSeen ts)"
      by (auto intro: filter_cong)
    with False own Cons.IH [OF rest, of "insert t seen"] show ?thesis
      by (simp add: dedupe_loop_Cons)
  qed
qed

lemma envRecipients_tokens:
  "envRecipients e = map JStr (firstSeen (concat (map parseRecipientList (envCandidates e))))"
proof -
  have "\<forall>t\<in>set (concat (map parseRecipientList (envCandidates e))). t \<noteq> [] \<and> normalizeEmail (JStr t) = t"
    using parseRecipientList_normalized by auto
  from dedupe_loop_own_keys [OF this, of "{}"] show ?thesis
    by (simp add: envRecipients_def dedupeEmails_def)
qed


lemma splitSeparators_pieces:
  "p \<in> set (splitSeparators v) \<Longrightarrow> c \<in> set p \<Longrightarrow> \<not> isSeparator c"
proof (induction v arbitrary: p rule: splitSeparators.induct)
  case 1
  then show ?case by simp
next
  case (2 d ds)
  show ?case
  proof (cases "isSeparator d")
    case True
    with "2.prems" have "p = [] \<or> p \<in> set (splitSeparators (dropWhile isSeparator ds))"
      by simp
    with "2.prems"(2) "2.IH"(1) [OF True] show ?thesis
      by auto
  next
    case False
    note hyp = "2.IH"(2) [OF False]
    show ?thesis
    proof (cases "splitSeparators ds")
      case Nil
      with False "2.prems" show ?thesis by simp
    next
      case (Cons q qs)
      with False "2.prems"(1) have "p = d # q \<or> p \<in> set qs"
        by simp
      then show ?thesis
      proof
        assume "p = d # q"
        with "2.prems"(2) have "c = d \<or> c \<in> set q"
          by simp
        then show ?thesis
          using False hyp [of q] Cons by auto
      next
        assume "p \<in> set qs"
        then show ?thesis
          using hyp [of p] "2.prems"(2) Cons by simp
      qed
    qed
  qed
qed

lemma dropWhile_none: "\<forall>c\<in>set p. \<not> P c \<Longrightarrow> dropWhile P p = p"
  by (cases p) auto

lemma trim_no_space: "\<forall>c\<in>set p. \<not> isWhiteSpace c \<Longrightarrow> trim p = p"
  by (simp add: trim_def dropWhile_none)

lemma parseRecipientList_Text:
  "parseRecipientList (Text v) = filter (\<lambda>a. a \<noteq> []) (map toLowerCase (splitSeparators v))"
proof (cases "v = []")
  case True
  then show ?thesis by (simp add: toLowerCase_def)
next
  case False
  have eq: "map (\<lambda>piece. normalizeEmail (JStr piece)) (splitSeparators v) = map toLowerCase (splitSeparators v)"
  proof (rule map_cong [OF refl])
    fix p
    assume "p \<in> set (splitSeparators v)"
    then have "\<forall>c\<in>set p. \<not> isWhiteSpace c"
      using splitSeparators_pieces by (auto simp: isSeparator_def)
    then show "normalizeEmail (JStr p) = toLowerCase p"
      by (simp add: trim_no_space)
  qed
  from False show ?thesis
    by (simp only: parseRecipientList.simps eq if_False)
qed

text \<open>
  C1, as amended: for every environment, the recipients taken from the environment
  sources are the addresses \<^verbatim>\<open>parseRecipientList\<close> returns, each exactly once and in
  first-seen order; \<^verbatim>\<open>parseRecipientList\<close> returns the non-empty pieces of a source string
  in lower case, so every recipient is a non-empty string equal to its own trimmed,
  lowercased form. The casing written in the environment is not retained.
\<close>

theorem envRecipients_lowercased_first_seen:
  "envRecipients e = map JStr (firstSeen (concat (map parseRecipientList (envCandidates e))))
   \<and> parseRecipientList (Text v) = filter (\<lambda>a. a \<noteq> []) (map toLowerCase (splitSeparators v))
   \<and> distinct (envRecipients e)
   \<and> (\<forall>r\<in>set (envRecipients e). \<exists>t. r = JStr t \<and> t \<noteq> [] \<and> toLowerCase (trim t) = t)"
proof (intro conjI ballI)
  show "envRecipients e = map JStr (firstSeen (concat (map parseRecipientList (envCandidates e))))"
    by (rule envRecipients_tokens)
  show "parseRecipientList (Text v) = filter (\<lambda>a. a \<noteq> []) (map toLowerCase (splitSeparators v))"
    by (rule parseRecipientList_Text)
  show "distinct (envRecipients e)"
    by (simp add: envRecipients_tokens distinct_map distinct_firstSeen inj_on_def)
  fix r
  assume "r \<in> set (envRecipients e)"
  then obtain t where r: "r = JStr t" and "t \<in> set (concat (map parseRecipientList (envCandidates e)))"
    by (auto simp: envRecipients_tokens set_firstSeen)
  then obtain src where "t \<in> set (parseRecipientList src)"
    by auto
  from parseRecipientList_normalized [OF this] r
  show "\<exists>t. r = JStr t \<and> t \<noteq> [] \<and> toLowerCase (trim t) = t"
    by simp
qed

text \<open>Two sources naming two addresses in several casings.\<close>

theorem envRecipients_lowercased_first_seen_witness:
  "envRecipients \<lparr> CONTACT_FORM_RECIPIENTS = Some ''Admin@Example.com, admin@example.COM; Bob@x.org'',
       CONTACT_RECIPIENTS = None, CONTACT_EMAIL = Some ''bob@X.org'', SUPPORT_EMAIL = None,
       MAIL_FROM = None, SMTP_USER = None \<rparr>
     = [JStr ''admin@example.com'', JStr ''bob@x.org'']
   \<and> parseRecipientList (Text ''Admin@Example.com, admin@example.COM; Bob@x.org'')
     = [''admin@example.com'', ''admin@example.com'', ''bob@x.org'']"
proof -
  let ?e = "\<lparr> CONTACT_FORM_RECIPIENTS = Some ''Admin@Example.com, admin@example.COM; Bob@x.org'',
       CONTACT_RECIPIENTS = None, CONTACT_EMAIL = Some ''bob@X.org'', SUPPORT_EMAIL = None,
       MAIL_FROM = None, SMTP_USER = None \<rparr>"
  let ?v = "''Admin@Example.com, admin@example.COM; Bob@x.org''"
  have a: "map JStr (firstSeen (concat (map parseRecipientList (envCandidates ?e))))
    = [JStr ''admin@example.com'', JStr ''bob@x.org'']"
    by code_simp
  have b: "filter (\<lambda>a. a \<noteq> []) (map toLowerCase (splitSeparators ?v))
    = [''admin@example.com'', ''admin@example.com'', ''bob@x.org'']"
    by code_simp
  note inst = envRecipients_lowercased_first_seen [of ?e ?v]
  from inst have p1: "envRecipients ?e = map JStr (firstSeen (concat (map parseRecipientList (envCandidates ?e))))"
    by (rule conjunct1)
  from inst have p2: "parseRecipientList (Text ?v) = filter (\<lambda>a. a \<noteq> []) (map toLowerCase (splitSeparators ?v))"
    by (rule conjunct1 [OF conjunct2])
  from p1 a have "envRecipients ?e = [JStr ''admin@example.com'', JStr ''bob@x.org'']"
    by (rule trans)
  moreover from p2 b have "parseRecipientList (Text ?v) = [''admin@example.com'', ''admin@example.com'', ''bob@x.org'']"
    by (rule trans)
  ultimately show ?thesis
    by (rule conjI)
qed

text \<open>
  C1 as stated fails: from \<^verbatim>\<open>CONTACT_EMAIL=Admin@Example.com\<close> the recipients are the
  lowercased address, not the address with the casing it was configured in.
\<close>

theorem envRecipients_original_casing_counterexample:
  "envRecipients
        \<lparr> CONTACT_FORM_RECIPIENTS = None, CONTACT_RECIPIENTS = None,
          CONTACT_EMAIL = Some ''Admin@Example.com'', SUPPORT_EMAIL = None,
          MAIL_FROM = None, SMTP_USER = None \<rparr>
     = [JStr ''admin@example.com'']
   \<and> envRecipients
        \<lparr> CONTACT_FORM_RECIPIENTS = None, CONTACT_RECIPIENTS = None,
          CONTACT_EMAIL = Some ''Admin@Example.com'', SUPPORT_EMAIL = None,
          MAIL_FROM = None, SMTP_USER = None \<rparr>
     \<noteq> [JStr ''Admin@Example.com'']"
  by code_simp

text \<open>
  C3: when the deduplicated recipients of the environment sources are not empty,
  \<^verbatim>\<open>resolveContactRecipients\<close> returns exactly that list and calls no collaborator (its
  call record is empty); whatever the team directory would do and whatever
  \<^verbatim>\<open>MAIL_FROM\<close> and \<^verbatim>\<open>SMTP_USER\<close> hold, the result is the same.
\<close>

theorem resolve_env_short_circuit:
  assumes "envRecipients (env w) \<noteq> []"
  shows "resolveContactRecipients w = (Inr (envRecipients (env w)), [])
         \<and> resolveContactRecipients
             (w\<lparr> listTeamMemberEmails := d, env := (env w)\<lparr> MAIL_FROM := m, SMTP_USER := u \<rparr> \<rparr>)
           = (Inr (envRecipients (env w)), [])"
proof -
  have "envRecipients ((env w)\<lparr> MAIL_FROM := m, SMTP_USER := u \<rparr>) = envRecipients (env w)"
    by (simp add: envRecipients_def envCandidates_def)
  with assms show ?thesis
    by (simp add: resolveContactRecipients_def Let_def)
qed

text \<open>A configured recipient and a team directory that throws when called.\<close>

theorem resolve_env_short_circuit_witness:
  "envRecipients (env
      \<lparr> env = \<lparr> CONTACT_FORM_RECIPIENTS = Some ''ops@example.org'', CONTACT_RECIPIENTS = None,
                CONTACT_EMAIL = None, SUPPORT_EMAIL = None,
                MAIL_FROM = Some ''noreply@example.org'', SMTP_USER = None \<rparr>,
        isMailConfigured = True, listTeamMemberEmails = Inl (JStr ''directory called''),
        now = ''2024-01-01T00:00:00.000Z'',
        JSON_parse = (\<lambda>v. None), sendMail = (\<lambda>m. Inl JNull) \<rparr>) \<noteq> []
   \<and> resolveContactRecipients
      \<lparr> env = \<lparr> CONTACT_FORM_RECIPIENTS = Some ''ops@example.org'', CONTACT_RECIPIENTS = None,
                CONTACT_EMAIL = None, SUPPORT_EMAIL = None,
                MAIL_FROM = Some ''noreply@example.org'', SMTP_USER = None \<rparr>,
        isMailConfigured = True, listTeamMemberEmails = Inl (JStr ''directory called''),
        now = ''2024-01-01T00:00:00.000Z'',
        JSON_parse = (\<lambda>v. None), sendMail = (\<lambda>m. Inl JNull) \<rparr>
     = (Inr [JStr ''ops@example.org''], [])"
proof -
  let ?w = "\<lparr> env = \<lparr> CONTACT_FORM_RECIPIENTS = Some ''ops@example.org'', CONTACT_RECIPIENTS = None,
                CONTACT_EMAIL = None, SUPPORT_EMAIL = None,
                MAIL_FROM = Some ''noreply@example.org'', SMTP_USER = None \<rparr>,
        isMailConfigured = True, listTeamMemberEmails = Inl (JStr ''directory called''),
        now = ''2024-01-01T00:00:00.000Z'',
        JSON_parse = (\<lambda>v. None), sendMail = (\<lambda>m. Inl JNull) \<rparr>"
  have val: "envRecipients (env ?w) = [JStr ''ops@example.org'']"
    by code_simp
  then have h: "envRecipients (env ?w) \<noteq> []"
    by simp
  from resolve_env_short_circuit [OF h]
  have "resolveContactRecipients ?w = (Inr (envRecipients (env ?w)), [])"
    by (rule conjunct1)
  with val have "resolveContactRecipients ?w = (Inr [JStr ''ops@example.org''], [])"
    by simp
  with h show ?thesis
    by (rule conjI)
qed

section \<open>Rendered bodies\<close>

lemma replaceAll_Nil: "replaceAll c r [] = []"
  by (simp add: replaceAll_def)

lemma replaceAll_append: "replaceAll c r (xs @ ys) = replaceAll c r xs @ replaceAll c r ys"
  by (simp add: replaceAll_def)

lemma replaceAll_Cons: "replaceAll c r (x # xs) = (if x = c then r else [x]) @ replaceAll c r xs"
  by (simp add: replaceAll_def)

lemma escapeHtml_Nil: "escapeHtml [] = []"
  by (simp add: escapeHtml_def replaceAll_Nil)

lemma escapeHtml_Cons: "escapeHtml (c # cs) = htmlEntity c @ escapeHtml cs"
  by (simp add: escapeHtml_def htmlEntity_def replaceAll_Cons replaceAll_append replaceAll_Nil)

lemma escapeHtml_entities: "escapeHtml v = concat (map htmlEntity v)"
  by (induction v) (simp_all add: escapeHtml_Nil escapeHtml_Cons)

lemma htmlEntity_safe:
  "set (htmlEntity c) \<inter> {CHR ''<'', CHR ''>'', CHR 0x22, CHR 0x27} = {}"
  by (auto simp: htmlEntity_def)

lemma escapeHtml_safe:
  "set (escapeHtml v) \<inter> {CHR ''<'', CHR ''>'', CHR 0x22, CHR 0x27} = {}"
  using htmlEntity_safe by (induction v) (auto simp: escapeHtml_Nil escapeHtml_Cons)

lemma replaceAll_removes: "c \<notin> set r \<Longrightarrow> c \<notin> set (replaceAll c r s)"
  by (induction s) (auto simp: replaceAll_Nil replaceAll_Cons)

lemma textLines_no_blank: "JStr [] \<notin> set (textLines s)"
  by (simp add: textLines_def)

lemma body_text_shape:
  "body_text (formatEmailBody s) =
     ''New contact form submission received.'' @ ''\<newline>'' @ ''Submitted at: '' @ submittedAt s
     @ (if name s \<noteq> [] then ''\<newline>'' @ ''Name: '' @ name s else [])
     @ (if email s \<noteq> [] then ''\<newline>'' @ ''Email: '' @ email s else [])
     @ (if message s \<noteq> [] then ''\<newline>'' @ message s else [])"
  by (simp add: formatEmailBody_def textLines_def Let_def)


text \<open>
  C2: the claim asks for a blank line between the header lines and the message. The array
  of lines holds the empty string for it, and \<^verbatim>\<open>filter(Boolean)\<close>, written to drop the
  \<^verbatim>\<open>null\<close> of an absent name or email, drops the empty string too: no submission is rendered
  with a blank line, and the submission below has the message right after the email line.
\<close>

theorem formatEmailBody_text_has_no_blank_line:
  "JStr [] \<notin> set (textLines s)
   \<and> body_text (formatEmailBody
         \<lparr> name = ''A'', email = ''a@b.com'', subject = ''Hi'', message = ''Hello'',
           submittedAt = ''2024-01-01T00:00:00.000Z'' \<rparr>)
     = ''New contact form submission received.\<newline>Submitted at: 2024-01-01T00:00:00.000Z\<newline>Name: A\<newline>Email: a@b.com\<newline>Hello''"
proof
  show "JStr [] \<notin> set (textLines s)"
    by (rule textLines_no_blank)
  show "body_text (formatEmailBody
         \<lparr> name = ''A'', email = ''a@b.com'', subject = ''Hi'', message = ''Hello'',
           submittedAt = ''2024-01-01T00:00:00.000Z'' \<rparr>)
     = ''New contact form submission received.\<newline>Submitted at: 2024-01-01T00:00:00.000Z\<newline>Name: A\<newline>Email: a@b.com\<newline>Hello''"
    by code_simp
qed

text \<open>
  C5: \<^verbatim>\<open>escapeHtml\<close> replaces each of the five characters by its entity, character by
  character, and its result holds none of \<^verbatim>\<open><\<close>, \<^verbatim>\<open>>\<close>, the double and the single
  quote; the HTML body carries name, email and message only in that escaped form, the
  message with every newline turned into \<^verbatim>\<open><br>\<close>; the text body ends with the message as
  it is.
\<close>

theorem formatEmailBody_escapes_fields:
  "escapeHtml v = concat (map htmlEntity v)
   \<and> set (escapeHtml v) \<inter> {CHR ''<'', CHR ''>'', CHR 0x22, CHR 0x27} = {}
   \<and> body_html (formatEmailBody s) =
       ''\<newline>    <p><strong>New contact form submission received.</strong></p>\<newline>    <ul>\<newline>      <li><strong>Submitted at:</strong> ''
       @ submittedAt s @ ''</li>\<newline>      ''
       @ (if name s \<noteq> [] then ''<li><strong>Name:</strong> '' @ concat (map htmlEntity (name s)) @ ''</li>'' else [])
       @ ''\<newline>      ''
       @ (if email s \<noteq> [] then ''<li><strong>Email:</strong> '' @ concat (map htmlEntity (email s)) @ ''</li>'' else [])
       @ ''\<newline>    </ul>\<newline>    <p><strong>Message:</strong></p>\<newline>    <blockquote>''
       @ replaceAll CHR ''\<newline>'' ''<br>'' (concat (map htmlEntity (message s)))
       @ ''</blockquote>\<newline>  ''
   \<and> CHR ''\<newline>'' \<notin> set (replaceAll CHR ''\<newline>'' ''<br>'' (concat (map htmlEntity (message s))))
   \<and> body_text (formatEmailBody s) =
       ''New contact form submission received.'' @ ''\<newline>'' @ ''Submitted at: '' @ submittedAt s
       @ (if name s \<noteq> [] then ''\<newline>'' @ ''Name: '' @ name s else [])
       @ (if email s \<noteq> [] then ''\<newline>'' @ ''Email: '' @ email s else [])
       @ (if message s \<noteq> [] then ''\<newline>'' @ message s else [])"
proof (intro conjI)
  show "escapeHtml v = concat (map htmlEntity v)"
    by (rule escapeHtml_entities)
  show "set (escapeHtml v) \<inter> {CHR ''<'', CHR ''>'', CHR 0x22, CHR 0x27} = {}"
    by (rule escapeHtml_safe)
  show "CHR ''\<newline>'' \<notin> set (replaceAll CHR ''\<newline>'' ''<br>'' (concat (map htmlEntity (message s))))"
    by (rule replaceAll_removes) simp
  show "body_text (formatEmailBody s) =
       ''New contact form submission received.'' @ ''\<newline>'' @ ''Submitted at: '' @ submittedAt s
       @ (if name s \<noteq> [] then ''\<newline>'' @ ''Name: '' @ name s else [])
       @ (if email s \<noteq> [] then ''\<newline>'' @ ''Email: '' @ email s else [])
       @ (if message s \<noteq> [] then ''\<newline>'' @ message s else [])"
    by (rule body_text_shape)
  show "body_html (formatEmailBody s) =
       ''\<newline>    <p><strong>New contact form submission received.</strong></p>\<newline>    <ul>\<newline>      <li><strong>Submitted at:</strong> ''
       @ submittedAt s @ ''</li>\<newline>      ''
       @ (if name s \<noteq> [] then ''<li><strong>Name:</strong> '' @ concat (map htmlEntity (name s)) @ ''</li>'' else [])
       @ ''\<newline>      ''
       @ (if email s \<noteq> [] then ''<li><strong>Email:</strong> '' @ concat (map htmlEntity (email s)) @ ''</li>'' else [])
       @ ''\<newline>    </ul>\<newline>    <p><strong>Message:</strong></p>\<newline>    <blockquote>''
       @ replaceAll CHR ''\<newline>'' ''<br>'' (concat (map htmlEntity (message s)))
       @ ''</blockquote>\<newline>  ''"
    by (simp add: formatEmailBody_def Let_def escapeHtml_entities)
qed

text \<open>A message with a script element and a newline, and a name with an ampersand.\<close>

theorem formatEmailBody_escapes_fields_witness:
  "escapeHtml ''<script>alert(1)</script>'' = ''&lt;script&gt;alert(1)&lt;/script&gt;''
   \<and> body_html (formatEmailBody
         \<lparr> name = ''A & B'', email = ''a@b.com'', subject = ''Hi'',
           message = ''<script>alert(1)</script>'' @ ''\<newline>'' @ ''bye'',
           submittedAt = ''2024-01-01T00:00:00.000Z'' \<rparr>)
     = ''\<newline>    <p><strong>New contact form submission received.</strong></p>\<newline>    <ul>\<newline>      <li><strong>Submitted at:</strong> 2024-01-01T00:00:00.000Z</li>\<newline>      <li><strong>Name:</strong> A &amp; B</li>\<newline>      <li><strong>Email:</strong> a@b.com</li>\<newline>    </ul>\<newline>    <p><strong>Message:</strong></p>\<newline>    <blockquote>&lt;script&gt;alert(1)&lt;/script&gt;<br>bye</blockquote>\<newline>  ''
   \<and> body_text (formatEmailBody
         \<lparr> name = ''A & B'', email = ''a@b.com'', subject = ''Hi'',
           message = ''<script>alert(1)</script>'' @ ''\<newline>'' @ ''bye'',
           submittedAt = ''2024-01-01T00:00:00.000Z'' \<rparr>)
     = ''New contact form submission received.\<newline>Submitted at: 2024-01-01T00:00:00.000Z\<newline>Name: A & B\<newline>Email: a@b.com\<newline><script>alert(1)</script>\<newline>bye''"
proof -
  let ?s = "\<lparr> name = ''A & B'', email = ''a@b.com'', subject = ''Hi'',
           message = ''<script>alert(1)</script>'' @ ''\<newline>'' @ ''bye'',
           submittedAt = ''2024-01-01T00:00:00.000Z'' \<rparr>"
  let ?v = "''<script>alert(1)</script>''"
  note inst = formatEmailBody_escapes_fields [of ?v ?s]
  have "concat (map htmlEntity ?v) = ''&lt;script&gt;alert(1)&lt;/script&gt;''"
    by code_simp
  with inst have a: "escapeHtml ?v = ''&lt;script&gt;alert(1)&lt;/script&gt;''"
    by (simp only:)
  have b: "body_html (formatEmailBody ?s)
     = ''\<newline>    <p><strong>New contact form submission received.</strong></p>\<newline>    <ul>\<newline>      <li><strong>Submitted at:</strong> 2024-01-01T00:00:00.000Z</li>\<newline>      <li><strong>Name:</strong> A &amp; B</li>\<newline>      <li><strong>Email:</strong> a@b.com</li>\<newline>    </ul>\<newline>    <p><strong>Message:</strong></p>\<newline>    <blockquote>&lt;script&gt;alert(1)&lt;/script&gt;<br>bye</blockquote>\<newline>  ''"
    by code_simp
  have c: "body_text (formatEmailBody ?s)
     = ''New contact form submission received.\<newline>Submitted at: 2024-01-01T00:00:00.000Z\<newline>Name: A & B\<newline>Email: a@b.com\<newline><script>alert(1)</script>\<newline>bye''"
    by code_simp
  from a b c show ?thesis
    by (intro conjI)
qed

section \<open>Subject\<close>

lemma startsWith_iff: "startsWith s p \<longleftrightarrow> (\<exists>t. s = p @ t)"
proof
  assume "startsWith s p"
  then have "s = p @ drop (length p) s"
    by (metis append_take_drop_id startsWith_def)
  then show "\<exists>t. s = p @ t" ..
next
  assume "\<exists>t. s = p @ t"
  then show "startsWith s p"
    by (auto simp: startsWith_def)
qed

text \<open>
  C4, as amended: the subject is left unchanged when it begins with \<^verbatim>\<open>Website contact:\<close>
  (the literal the code tests, without the space), and otherwise gets
  \<^verbatim>\<open>Website contact: \<close> in front; so a subject that begins with the prefix and its space
  is unchanged, every result begins with \<^verbatim>\<open>Website contact:\<close>, and a second application
  changes nothing.
\<close>

theorem safeSubject_prefix_idempotent:
  "safeSubject s = (if startsWith s ''Website contact:'' then s else ''Website contact: '' @ s)
   \<and> (startsWith s ''Website contact: '' \<longrightarrow> safeSubject s = s)
   \<and> startsWith (safeSubject s) ''Website contact:''
   \<and> safeSubject (safeSubject s) = safeSubject s"
proof -
  have long: "startsWith s ''Website contact:''" if "startsWith s ''Website contact: ''"
  proof -
    from that obtain t where "s = ''Website contact: '' @ t"
      by (auto simp: startsWith_iff)
    then have "s = ''Website contact:'' @ ('' '' @ t)"
      by simp
    then show ?thesis
      unfolding startsWith_iff by (rule exI)
  qed
  have pre: "startsWith (''Website contact: '' @ s) ''Website contact:''"
    by (simp add: startsWith_def)
  from long pre show ?thesis
    by (auto simp: safeSubject_def)
qed

text \<open>A subject with the prefix and one without.\<close>

theorem safeSubject_prefix_idempotent_witness:
  "startsWith ''Website contact: Hi'' ''Website contact: ''
   \<and> safeSubject ''Website contact: Hi'' = ''Website contact: Hi''
   \<and> safeSubject ''Hi'' = ''Website contact: Hi''
   \<and> safeSubject (safeSubject ''Hi'') = ''Website contact: Hi''"
proof -
  have h: "startsWith ''Website contact: Hi'' ''Website contact: ''"
    by code_simp
  from safeSubject_prefix_idempotent [of "''Website contact: Hi''"] h
  have a: "safeSubject ''Website contact: Hi'' = ''Website contact: Hi''"
    by blast
  have b: "safeSubject ''Hi'' = ''Website contact: Hi''"
    by code_simp
  from safeSubject_prefix_idempotent [of "''Hi''"]
  have "safeSubject (safeSubject ''Hi'') = safeSubject ''Hi''"
    by blast
  with b have c: "safeSubject (safeSubject ''Hi'') = ''Website contact: Hi''"
    by simp
  from h a b c show ?thesis
    by (intro conjI)
qed

text \<open>
  C4 as stated fails: this subject does not begin with the prefix and its space, and it is
  dispatched without the prefix put in front.
\<close>

theorem safeSubject_prefix_counterexample:
  "\<not> startsWith ''Website contact:x'' ''Website contact: ''
   \<and> safeSubject ''Website contact:x'' \<noteq> ''Website contact: '' @ ''Website contact:x''"
  by code_simp

section \<open>The plausibility pattern\<close>

lemma class_mem: "w \<in> lang (Class p) \<longleftrightarrow> (\<exists>c. w = [c] \<and> p c)"
  by auto

lemma seq_mem: "w \<in> lang (Seq r s) \<longleftrightarrow> (\<exists>u v. w = u @ v \<and> u \<in> lang r \<and> v \<in> lang s)"
  by auto

lemma star_mem: "w \<in> lang (Star r) \<longleftrightarrow> (\<exists>ws. w = concat ws \<and> set ws \<subseteq> lang r)"
  by auto

declare lang.simps(3,5,6) [simp del]

lemma nullable_lang: "nullable r \<longleftrightarrow> [] \<in> lang r"
proof (induction r)
  case (Star r)
  have "[] \<in> lang (Star r)"
    unfolding star_mem by (rule exI [of _ "[]"]) simp
  then show ?case by simp
qed (auto simp: class_mem seq_mem)

lemma star_step:
  "c # w \<in> lang (Star r) \<longleftrightarrow> (\<exists>u v. w = u @ v \<and> c # u \<in> lang r \<and> v \<in> lang (Star r))"
proof
  assume "c # w \<in> lang (Star r)"
  then obtain ws where ws: "c # w = concat ws" "set ws \<subseteq> lang r"
    unfolding star_mem by blast
  then show "\<exists>u v. w = u @ v \<and> c # u \<in> lang r \<and> v \<in> lang (Star r)"
  proof (induction ws)
    case Nil
    then show ?case by simp
  next
    case (Cons x xs)
    show ?case
    proof (cases x)
      case Nil
      with Cons show ?thesis by simp
    next
      case (Cons d u)
      with Cons.prems have "w = u @ concat xs" "c # u \<in> lang r" "set xs \<subseteq> lang r"
        by auto
      moreover from this(3) have "concat xs \<in> lang (Star r)"
        unfolding star_mem by blast
      ultimately show ?thesis by blast
    qed
  qed
next
  assume "\<exists>u v. w = u @ v \<and> c # u \<in> lang r \<and> v \<in> lang (Star r)"
  then obtain u ws where "w = u @ concat ws" "c # u \<in> lang r" "set ws \<subseteq> lang r"
    unfolding star_mem by blast
  then have "c # w = concat ((c # u) # ws) \<and> set ((c # u) # ws) \<subseteq> lang r"
    by simp
  then show "c # w \<in> lang (Star r)"
    unfolding star_mem by blast
qed

lemma seq_step:
  "c # w \<in> lang (Seq r s) \<longleftrightarrow>
     ([] \<in> lang r \<and> c # w \<in> lang s) \<or> (\<exists>u v. w = u @ v \<and> c # u \<in> lang r \<and> v \<in> lang s)"
proof
  assume "c # w \<in> lang (Seq r s)"
  then obtain u v where uv: "c # w = u @ v" "u \<in> lang r" "v \<in> lang s"
    unfolding seq_mem by blast
  show "([] \<in> lang r \<and> c # w \<in> lang s) \<or> (\<exists>u v. w = u @ v \<and> c # u \<in> lang r \<and> v \<in> lang s)"
  proof (cases u)
    case Nil
    with uv show ?thesis by simp
  next
    case (Cons d u')
    with uv have "w = u' @ v" "c # u' \<in> lang r"
      by auto
    with uv(3) show ?thesis by blast
  qed
next
  assume "([] \<in> lang r \<and> c # w \<in> lang s) \<or> (\<exists>u v. w = u @ v \<and> c # u \<in> lang r \<and> v \<in> lang s)"
  then show "c # w \<in> lang (Seq r s)"
  proof
    assume "[] \<in> lang r \<and> c # w \<in> lang s"
    then have "c # w = [] @ (c # w) \<and> [] \<in> lang r \<and> c # w \<in> lang s"
      by simp
    then show ?thesis
      unfolding seq_mem by blast
  next
    assume "\<exists>u v. w = u @ v \<and> c # u \<in> lang r \<and> v \<in> lang s"
    then obtain u v where "c # w = (c # u) @ v" "c # u \<in> lang r" "v \<in> lang s"
      by auto
    then show ?thesis
      unfolding seq_mem by blast
  qed
qed

lemma deriv_lang: "w \<in> lang (deriv c r) \<longleftrightarrow> c # w \<in> lang r"
proof (induction r arbitrary: w)
  case (Class p)
  show ?case by (simp add: class_mem)
next
  case (Seq r s)
  have A: "w \<in> lang (Seq (deriv c r) s) \<longleftrightarrow> (\<exists>u v. w = u @ v \<and> c # u \<in> lang r \<and> v \<in> lang s)"
    unfolding seq_mem Seq.IH(1) ..
  show ?case
  proof (cases "nullable r")
    case True
    then have "w \<in> lang (deriv c (Seq r s)) \<longleftrightarrow> w \<in> lang (Seq (deriv c r) s) \<or> w \<in> lang (deriv c s)"
      by simp
    also have "\<dots> \<longleftrightarrow> (\<exists>u v. w = u @ v \<and> c # u \<in> lang r \<and> v \<in> lang s) \<or> c # w \<in> lang s"
      unfolding A Seq.IH(2) ..
    also from True have "\<dots> \<longleftrightarrow> c # w \<in> lang (Seq r s)"
      unfolding seq_step nullable_lang by blast
    finally show ?thesis .
  next
    case False
    then have "w \<in> lang (deriv c (Seq r s)) \<longleftrightarrow> w \<in> lang (Seq (deriv c r) s)"
      by simp
    also from False have "\<dots> \<longleftrightarrow> c # w \<in> lang (Seq r s)"
      unfolding A seq_step nullable_lang by blast
    finally show ?thesis .
  qed
next
  case (Star r)
  have "w \<in> lang (Seq (deriv c r) (Star r)) \<longleftrightarrow> (\<exists>u v. w = u @ v \<and> c # u \<in> lang r \<and> v \<in> lang (Star r))"
    unfolding seq_mem Star.IH ..
  then show ?case
    by (simp add: star_step)
qed auto

lemma regexTest_lang: "regexTest r w \<longleftrightarrow> w \<in> lang r"
  by (induction w arbitrary: r) (simp_all add: nullable_lang deriv_lang)

lemma lang_Star_Class: "w \<in> lang (Star (Class p)) \<longleftrightarrow> (\<forall>c\<in>set w. p c)"
proof
  assume "w \<in> lang (Star (Class p))"
  then obtain ws where ws: "w = concat ws" "set ws \<subseteq> lang (Class p)"
    unfolding star_mem by blast
  show "\<forall>c\<in>set w. p c"
  proof
    fix c
    assume "c \<in> set w"
    with ws(1) obtain x where "x \<in> set ws" "c \<in> set x"
      by auto
    with ws(2) show "p c"
      by (auto simp: class_mem subset_iff)
  qed
next
  assume "\<forall>c\<in>set w. p c"
  then have "w = concat (map (\<lambda>c. [c]) w) \<and> set (map (\<lambda>c. [c]) w) \<subseteq> lang (Class p)"
    by (induction w) (auto simp: class_mem)
  then show "w \<in> lang (Star (Class p))"
    unfolding star_mem by blast
qed

lemma lang_Plus_Class: "w \<in> lang (Plus (Class p)) \<longleftrightarrow> w \<noteq> [] \<and> (\<forall>c\<in>set w. p c)"
proof -
  have mem: "w \<in> lang (Plus (Class p)) \<longleftrightarrow> (\<exists>c v. w = c # v \<and> p c \<and> (\<forall>x\<in>set v. p x))"
  proof
    assume "w \<in> lang (Plus (Class p))"
    then obtain u v c where "w = u @ v" "u = [c]" "p c" "\<forall>x\<in>set v. p x"
      unfolding Plus_def seq_mem class_mem lang_Star_Class by blast
    then show "\<exists>c v. w = c # v \<and> p c \<and> (\<forall>x\<in>set v. p x)"
      by auto
  next
    assume "\<exists>c v. w = c # v \<and> p c \<and> (\<forall>x\<in>set v. p x)"
    then obtain c v where "w = c # v" "p c" "\<forall>x\<in>set v. p x"
      by blast
    then have "w = [c] @ v \<and> (\<exists>d. [c] = [d] \<and> p d) \<and> (\<forall>x\<in>set v. p x)"
      by simp
    then show "w \<in> lang (Plus (Class p))"
      unfolding Plus_def seq_mem class_mem lang_Star_Class by blast
  qed
  show ?thesis
    unfolding mem by (cases w) auto
qed


lemma emailPattern_lang:
  "w \<in> lang emailPattern \<longleftrightarrow>
     (\<exists>l a b. w = l @ ''@'' @ a @ ''.'' @ b
        \<and> l \<noteq> [] \<and> (\<forall>c\<in>set l. notSpaceAt c)
        \<and> a \<noteq> [] \<and> (\<forall>c\<in>set a. notSpaceAt c)
        \<and> b \<noteq> [] \<and> (\<forall>c\<in>set b. notSpaceAt c))"
  unfolding emailPattern_def seq_mem class_mem lang_Plus_Class
  by (auto; blast)

lemma shape_iff:
  "(\<exists>l a b. w = l @ ''@'' @ a @ ''.'' @ b
        \<and> l \<noteq> [] \<and> (\<forall>c\<in>set l. notSpaceAt c)
        \<and> a \<noteq> [] \<and> (\<forall>c\<in>set a. notSpaceAt c)
        \<and> b \<noteq> [] \<and> (\<forall>c\<in>set b. notSpaceAt c))
   \<longleftrightarrow> plausibleShape w"
proof
  assume "\<exists>l a b. w = l @ ''@'' @ a @ ''.'' @ b
        \<and> l \<noteq> [] \<and> (\<forall>c\<in>set l. notSpaceAt c)
        \<and> a \<noteq> [] \<and> (\<forall>c\<in>set a. notSpaceAt c)
        \<and> b \<noteq> [] \<and> (\<forall>c\<in>set b. notSpaceAt c)"
  then obtain l a b where w: "w = l @ ''@'' @ a @ ''.'' @ b"
    and ne: "l \<noteq> []" "a \<noteq> []" "b \<noteq> []"
    and cl: "\<forall>c\<in>set l. notSpaceAt c" "\<forall>c\<in>set a. notSpaceAt c" "\<forall>c\<in>set b. notSpaceAt c"
    by blast
  have sp: "\<not> isWhiteSpace CHR ''@''" "\<not> isWhiteSpace CHR ''.''"
    by (simp_all add: isWhiteSpace_def)
  have "w = l @ ''@'' @ (a @ ''.'' @ b)"
    using w by simp
  moreover have "CHR ''@'' \<notin> set l" "CHR ''@'' \<notin> set (a @ ''.'' @ b)"
    using cl by (auto simp: notSpaceAt_def)
  moreover have "\<forall>c\<in>set w. \<not> isWhiteSpace c"
    using cl sp by (auto simp: w notSpaceAt_def)
  ultimately show "plausibleShape w"
    unfolding plausibleShape_def using ne by blast
next
  assume "plausibleShape w"
  then obtain l a b where w: "w = l @ ''@'' @ (a @ ''.'' @ b)"
    and at: "CHR ''@'' \<notin> set l" "CHR ''@'' \<notin> set (a @ ''.'' @ b)"
    and ne: "l \<noteq> []" "a \<noteq> []" "b \<noteq> []"
    and sp: "\<forall>c\<in>set w. \<not> isWhiteSpace c"
    unfolding plausibleShape_def by blast
  from w at sp have "\<forall>c\<in>set l. notSpaceAt c" "\<forall>c\<in>set a. notSpaceAt c" "\<forall>c\<in>set b. notSpaceAt c"
    by (auto simp: notSpaceAt_def)
  moreover from w have "w = l @ ''@'' @ a @ ''.'' @ b"
    by simp
  ultimately show "\<exists>l a b. w = l @ ''@'' @ a @ ''.'' @ b
        \<and> l \<noteq> [] \<and> (\<forall>c\<in>set l. notSpaceAt c)
        \<and> a \<noteq> [] \<and> (\<forall>c\<in>set a. notSpaceAt c)
        \<and> b \<noteq> [] \<and> (\<forall>c\<in>set b. notSpaceAt c)"
    using ne by blast
qed

text \<open>
  C6: \<^verbatim>\<open>isLikelyEmail\<close> holds exactly for the strings whose trimmed form is not empty and
  has the minimal shape; so it is false for every value that is not a string and for
  every empty or white-space-only string.
\<close>

theorem isLikelyEmail_iff_shape:
  "isLikelyEmail v \<longleftrightarrow> (\<exists>s. v = JStr s \<and> trim s \<noteq> [] \<and> plausibleShape (trim s))"
proof (cases v)
  case (JStr s)
  have "isLikelyEmail (JStr s) \<longleftrightarrow> trim s \<noteq> [] \<and> regexTest emailPattern (trim s)"
    by (simp add: Let_def)
  also have "\<dots> \<longleftrightarrow> trim s \<noteq> [] \<and> plausibleShape (trim s)"
    unfolding regexTest_lang emailPattern_lang shape_iff ..
  finally show ?thesis
    using JStr by simp
qed simp_all

text \<open>An address with surrounding spaces, and one without a dot after the \<^verbatim>\<open>@\<close>.\<close>

theorem isLikelyEmail_iff_shape_witness:
  "isLikelyEmail (JStr '' ann@example.org '') \<and> plausibleShape ''ann@example.org''
   \<and> \<not> isLikelyEmail (JStr ''ann@example'') \<and> \<not> plausibleShape ''ann@example''"
proof -
  have t1: "trim '' ann@example.org '' = ''ann@example.org''"
    by code_simp
  have t2: "trim ''ann@example'' = ''ann@example''"
    by code_simp
  have yes: "isLikelyEmail (JStr '' ann@example.org '')"
    by code_simp
  have no: "\<not> isLikelyEmail (JStr ''ann@example'')"
    by code_simp
  from yes isLikelyEmail_iff_shape [of "JStr '' ann@example.org ''"]
  have "plausibleShape (trim '' ann@example.org '')"
    by simp
  then have p1: "plausibleShape ''ann@example.org''"
    unfolding t1 .
  from no isLikelyEmail_iff_shape [of "JStr ''ann@example''"]
  have "\<not> (trim ''ann@example'' \<noteq> [] \<and> plausibleShape (trim ''ann@example''))"
    by blast
  then have p2: "\<not> plausibleShape ''ann@example''"
    unfolding t2 by simp
  from yes p1 no p2 show ?thesis
    by (intro conjI)
qed

section \<open>The handler\<close>

lemma resolve_calls: "snd (resolveContactRecipients w) = [] \<or> snd (resolveContactRecipients w) = [ListTeamMemberEmails]"
  by (simp add: resolveContactRecipients_def Let_def split: sum.splits)

lemma resolve_no_send: "SendMail m \<notin> set (snd (resolveContactRecipients w))"
  using resolve_calls [of w] by auto

lemma isLikelyEmail_nonempty: "isLikelyEmail (JStr e) \<Longrightarrow> e \<noteq> []"
  by (auto simp: trim_def)

text \<open>
  The subject of every mail the handler hands to \<^verbatim>\<open>sendMail\<close> is \<^verbatim>\<open>safeSubject\<close> of the
  trimmed subject field.
\<close>

lemma handler_dispatched_subject:
  "SendMail m \<in> set (snd (handler w ev)) \<Longrightarrow>
     \<exists>parsed. JSON_parse w (event_body ev) = Some parsed
       \<and> mail_subject m = safeSubject (normalizeString (getProp parsed ''subject''))"
  using resolve_no_send [of m w]
  by (auto simp: handler_def Let_def simp del: isLikelyEmail.simps
           split: option.splits sum.splits prod.splits if_splits)

text \<open>
  C9: when mail is configured, the body parses, subject and message are not empty after
  trimming, the email passes the plausibility check, and recipient resolution returns the
  empty list, the handler answers 503 with the message about missing recipients, and it
  makes no call but those of the resolver: \<^verbatim>\<open>sendMail\<close> is not called.
\<close>

theorem handler_no_recipients_503:
  assumes "isMailConfigured w"
    and "JSON_parse w (event_body ev) = Some parsed"
    and "normalizeString (getProp parsed ''subject'') \<noteq> []"
    and "normalizeString (getProp parsed ''message'') \<noteq> []"
    and "isLikelyEmail (JStr (normalizeString (getProp parsed ''email'')))"
    and "fst (resolveContactRecipients w) = Inr []"
  shows "fst (handler w ev) =
           Inr \<lparr> statusCode = 503,
                 body = JObj [(''error'', JStr ''No contact recipients configured. Set CONTACT_FORM_RECIPIENTS or CONTACT_EMAIL in the environment.'')] \<rparr>
         \<and> snd (handler w ev) = snd (resolveContactRecipients w)
         \<and> (\<forall>m. SendMail m \<notin> set (snd (handler w ev)))"
proof -
  from assms(5) have ne: "normalizeString (getProp parsed ''email'') \<noteq> []"
    by (rule isLikelyEmail_nonempty)
  obtain calls where r: "resolveContactRecipients w = (Inr [], calls)"
    using assms(6) by (cases "resolveContactRecipients w") auto
  have h: "handler w ev = (Inr (errorResponse 503
      ''No contact recipients configured. Set CONTACT_FORM_RECIPIENTS or CONTACT_EMAIL in the environment.''), calls)"
    using assms(1-5) ne r by (simp add: handler_def Let_def del: isLikelyEmail.simps)
  from resolve_no_send [of _ w] r have "\<forall>m. SendMail m \<notin> set calls"
    by simp
  with h r show ?thesis
    by (simp add: errorResponse_def)
qed

text \<open>
  C7: when the handler has called \<^verbatim>\<open>sendMail\<close> with a mail and that call rejects with a
  value, the handler returns a response (it does not rethrow): the status is the value's
  \<^verbatim>\<open>statusCode\<close> when that is a number of at least 400 and 500 otherwise, the body holds
  the fixed description and as details the value's \<^verbatim>\<open>message\<close> (null when that is absent
  or empty), and the value is passed to \<^verbatim>\<open>console.error\<close> right after the call.
\<close>

theorem handler_transport_failure:
  assumes "SendMail m \<in> set (snd (handler w ev))"
    and "sendMail w m = Inl thrown"
  shows "fst (handler w ev) =
           Inr \<lparr> statusCode = (case getProp thrown ''statusCode'' of
                                 JNum n \<Rightarrow> if 400 \<le> n then n else 500
                               | _ \<Rightarrow> 500),
                 body = JObj [(''error'', JStr ''Failed to send contact email''),
                              (''details'', if truthy (getProp thrown ''message'')
                                            then getProp thrown ''message'' else JNull)] \<rparr>
         \<and> snd (handler w ev) = snd (resolveContactRecipients w) @ [SendMail m, ConsoleError thrown]"
  using assms resolve_no_send [of m w]
  by (auto simp: handler_def Let_def errorResponse_def failureStatus_def jsOr_def
           split: option.splits sum.splits prod.splits if_splits)


text \<open>
  No usable recipient anywhere: a source of separators only, a directory entry that is not
  a string, and an empty \<^verbatim>\<open>SMTP_USER\<close>.
\<close>

theorem handler_no_recipients_503_witness:
  "isMailConfigured
      \<lparr> env = \<lparr> CONTACT_FORM_RECIPIENTS = None, CONTACT_RECIPIENTS = Some '' ,; '',
                CONTACT_EMAIL = None, SUPPORT_EMAIL = None, MAIL_FROM = None, SMTP_USER = Some [] \<rparr>,
        isMailConfigured = True, listTeamMemberEmails = Inr [JNull],
        now = ''2024-01-01T00:00:00.000Z'',
        JSON_parse = (\<lambda>v. Some (JObj [(''name'', JStr ''A''), (''email'', JStr ''a@b.com''),
                                         (''subject'', JStr ''Hi''), (''message'', JStr ''Hello'')])),
        sendMail = (\<lambda>m. Inr \<lparr> result_to = JArr (mail_to m), result_messageId = JStr ''id-1'' \<rparr>) \<rparr>
   \<and> handler
      \<lparr> env = \<lparr> CONTACT_FORM_RECIPIENTS = None, CONTACT_RECIPIENTS = Some '' ,; '',
                CONTACT_EMAIL = None, SUPPORT_EMAIL = None, MAIL_FROM = None, SMTP_USER = Some [] \<rparr>,
        isMailConfigured = True, listTeamMemberEmails = Inr [JNull],
        now = ''2024-01-01T00:00:00.000Z'',
        JSON_parse = (\<lambda>v. Some (JObj [(''name'', JStr ''A''), (''email'', JStr ''a@b.com''),
                                         (''subject'', JStr ''Hi''), (''message'', JStr ''Hello'')])),
        sendMail = (\<lambda>m. Inr \<lparr> result_to = JArr (mail_to m), result_messageId = JStr ''id-1'' \<rparr>) \<rparr>
      (Event (JStr ''request''))
     = (Inr \<lparr> statusCode = 503,
               body = JObj [(''error'', JStr ''No contact recipients configured. Set CONTACT_FORM_RECIPIENTS or CONTACT_EMAIL in the environment.'')] \<rparr>,
        [ListTeamMemberEmails])"
proof -
  let ?parsed = "JObj [(''name'', JStr ''A''), (''email'', JStr ''a@b.com''),
                       (''subject'', JStr ''Hi''), (''message'', JStr ''Hello'')]"
  let ?w = "\<lparr> env = \<lparr> CONTACT_FORM_RECIPIENTS = None, CONTACT_RECIPIENTS = Some '' ,; '',
                CONTACT_EMAIL = None, SUPPORT_EMAIL = None, MAIL_FROM = None, SMTP_USER = Some [] \<rparr>,
        isMailConfigured = True, listTeamMemberEmails = Inr [JNull],
        now = ''2024-01-01T00:00:00.000Z'',
        JSON_parse = (\<lambda>v. Some ?parsed),
        sendMail = (\<lambda>m. Inr \<lparr> result_to = JArr (mail_to m), result_messageId = JStr ''id-1'' \<rparr>) \<rparr>"
  let ?ev = "Event (JStr ''request'')"
  have h1: "isMailConfigured ?w"
    by simp
  have h2: "JSON_parse ?w (event_body ?ev) = Some ?parsed"
    by simp
  have h3: "normalizeString (getProp ?parsed ''subject'') \<noteq> []"
    by code_simp
  have h4: "normalizeString (getProp ?parsed ''message'') \<noteq> []"
    by code_simp
  have h5: "isLikelyEmail (JStr (normalizeString (getProp ?parsed ''email'')))"
    by code_simp
  have r: "resolveContactRecipients ?w = (Inr [], [ListTeamMemberEmails])"
    by code_simp
  then have h6: "fst (resolveContactRecipients ?w) = Inr []"
    by simp
  note concl = handler_no_recipients_503 [OF h1 h2 h3 h4 h5 h6]
  from concl have "fst (handler ?w ?ev) =
      Inr \<lparr> statusCode = 503,
            body = JObj [(''error'', JStr ''No contact recipients configured. Set CONTACT_FORM_RECIPIENTS or CONTACT_EMAIL in the environment.'')] \<rparr>"
    by (rule conjunct1)
  moreover from concl have "snd (handler ?w ?ev) = snd (resolveContactRecipients ?w)"
    by (rule conjunct1 [OF conjunct2])
  then have "snd (handler ?w ?ev) = [ListTeamMemberEmails]"
    by (simp only: r snd_conv)
  ultimately have "handler ?w ?ev =
     (Inr \<lparr> statusCode = 503,
            body = JObj [(''error'', JStr ''No contact recipients configured. Set CONTACT_FORM_RECIPIENTS or CONTACT_EMAIL in the environment.'')] \<rparr>,
      [ListTeamMemberEmails])"
    by (simp only: prod_eq_iff fst_conv snd_conv simp_thms)
  with h1 show ?thesis
    by (rule conjI)
qed

text \<open>
  C8: the claim says that no error escapes the handler. The handler catches what
  \<^verbatim>\<open>JSON.parse\<close> and \<^verbatim>\<open>sendMail\<close> throw, but it calls \<^verbatim>\<open>resolveContactRecipients\<close>
  outside any \<^verbatim>\<open>try\<close>: for a valid request without environment recipients and a
  team directory that throws, the thrown value leaves the handler and no response is
  returned.
\<close>

theorem handler_directory_error_escapes:
  "handler
      \<lparr> env = \<lparr> CONTACT_FORM_RECIPIENTS = None, CONTACT_RECIPIENTS = None,
                CONTACT_EMAIL = None, SUPPORT_EMAIL = None,
                MAIL_FROM = Some ''noreply@example.org'', SMTP_USER = None \<rparr>,
        isMailConfigured = True,
        listTeamMemberEmails = Inl (JObj [(''message'', JStr ''directory unavailable'')]),
        now = ''2024-01-01T00:00:00.000Z'',
        JSON_parse = (\<lambda>v. Some (JObj [(''name'', JStr ''A''), (''email'', JStr ''a@b.com''),
                                         (''subject'', JStr ''Hi''), (''message'', JStr ''Hello'')])),
        sendMail = (\<lambda>m. Inr \<lparr> result_to = JArr (mail_to m), result_messageId = JStr ''id-1'' \<rparr>) \<rparr>
      (Event (JStr ''request''))
     = (Inl (JObj [(''message'', JStr ''directory unavailable'')]), [ListTeamMemberEmails])"
  by code_simp


text \<open>A transport that rejects every mail with status 429.\<close>

theorem handler_transport_failure_witness:
  "handler
      \<lparr> env = \<lparr> CONTACT_FORM_RECIPIENTS = None, CONTACT_RECIPIENTS = None,
                CONTACT_EMAIL = Some ''Ops@Example.org'', SUPPORT_EMAIL = None,
                MAIL_FROM = None, SMTP_USER = None \<rparr>,
        isMailConfigured = True, listTeamMemberEmails = Inr [],
        now = ''2024-01-01T00:00:00.000Z'',
        JSON_parse = (\<lambda>v. Some (JObj [(''name'', JStr ''A''), (''email'', JStr ''a@b.com''),
                                         (''subject'', JStr ''Hi''), (''message'', JStr ''Hello'')])),
        sendMail = (\<lambda>m. Inl (JObj [(''statusCode'', JNum 429), (''message'', JStr ''rate limited'')])) \<rparr>
      (Event (JStr ''request''))
     = (Inr \<lparr> statusCode = 429,
               body = JObj [(''error'', JStr ''Failed to send contact email''),
                            (''details'', JStr ''rate limited'')] \<rparr>,
        [SendMail \<lparr> mail_to = [JStr ''ops@example.org''], mail_subject = ''Website contact: Hi'',
               mail_text = body_text (formatEmailBody \<lparr> name = ''A'', email = ''a@b.com'', subject = ''Hi'', message = ''Hello'',
                       submittedAt = ''2024-01-01T00:00:00.000Z'' \<rparr>),
               mail_html = body_html (formatEmailBody \<lparr> name = ''A'', email = ''a@b.com'', subject = ''Hi'', message = ''Hello'',
                       submittedAt = ''2024-01-01T00:00:00.000Z'' \<rparr>),
               mail_replyTo = ''a@b.com'',
               mail_headers = [(''X-Entity'', ''contact-form-message'')] \<rparr>,
         ConsoleError (JObj [(''statusCode'', JNum 429), (''message'', JStr ''rate limited'')])])"
proof -
  let ?w = "\<lparr> env = \<lparr> CONTACT_FORM_RECIPIENTS = None, CONTACT_RECIPIENTS = None,
                CONTACT_EMAIL = Some ''Ops@Example.org'', SUPPORT_EMAIL = None,
                MAIL_FROM = None, SMTP_USER = None \<rparr>,
        isMailConfigured = True, listTeamMemberEmails = Inr [],
        now = ''2024-01-01T00:00:00.000Z'',
        JSON_parse = (\<lambda>v. Some (JObj [(''name'', JStr ''A''), (''email'', JStr ''a@b.com''),
                                         (''subject'', JStr ''Hi''), (''message'', JStr ''Hello'')])),
        sendMail = (\<lambda>m. Inl (JObj [(''statusCode'', JNum 429), (''message'', JStr ''rate limited'')])) \<rparr>"
  let ?ev = "Event (JStr ''request'')"
  let ?m = "\<lparr> mail_to = [JStr ''ops@example.org''], mail_subject = ''Website contact: Hi'',
               mail_text = body_text (formatEmailBody \<lparr> name = ''A'', email = ''a@b.com'', subject = ''Hi'', message = ''Hello'',
                       submittedAt = ''2024-01-01T00:00:00.000Z'' \<rparr>),
               mail_html = body_html (formatEmailBody \<lparr> name = ''A'', email = ''a@b.com'', subject = ''Hi'', message = ''Hello'',
                       submittedAt = ''2024-01-01T00:00:00.000Z'' \<rparr>),
               mail_replyTo = ''a@b.com'',
               mail_headers = [(''X-Entity'', ''contact-form-message'')] \<rparr>"
  let ?t = "JObj [(''statusCode'', JNum 429), (''message'', JStr ''rate limited'')]"
  have log: "snd (handler ?w ?ev) = [SendMail ?m, ConsoleError ?t]"
    by code_simp
  then have h1: "SendMail ?m \<in> set (snd (handler ?w ?ev))"
    by (simp only: list.set insertI1)
  have h2: "sendMail ?w ?m = Inl ?t"
    by simp
  from handler_transport_failure [OF h1 h2]
  have "fst (handler ?w ?ev) =
           Inr \<lparr> statusCode = (case getProp ?t ''statusCode'' of
                                 JNum n \<Rightarrow> if 400 \<le> n then n else 500
                               | _ \<Rightarrow> 500),
                 body = JObj [(''error'', JStr ''Failed to send contact email''),
                              (''details'', if truthy (getProp ?t ''message'')
                                            then getProp ?t ''message'' else JNull)] \<rparr>"
    by (rule conjunct1)
  then have "fst (handler ?w ?ev) = Inr \<lparr> statusCode = 429,
               body = JObj [(''error'', JStr ''Failed to send contact email''),
                            (''details'', JStr ''rate limited'')] \<rparr>"
    by simp
  with log show ?thesis
    by (simp only: prod_eq_iff fst_conv snd_conv simp_thms)
qed

end
